theory Spec2Isabelle
  imports Main "HOL-Library.AList" "HOL-Library.Multiset"
begin

section \<open>Domain merging in \<open>bot/train.py\<close>\<close>

text \<open>
  The development embeds \<open>Training.get_domain_file\<close> (\<open>src/bot/train.py\<close>, lines 48 to 72):
  the one piece of logic the repository implements itself. Everything else in the file
  delegates to the Rasa libraries.

  Three library calls are outside the repository and enter the model as inputs:
  \<^item> \<open>glob.glob\<close>: the model receives the two lists of matches (\<open>*.yml\<close>, then \<open>*.yaml\<close>)
    in the order glob returns them; a missing directory gives two empty lists;
  \<^item> \<open>open\<close> and \<open>yaml.safe_load\<close>: each matched file is given by the outcome of loading it
    (\<open>load_outcome\<close>): the file cannot be opened, its text is not YAML, or the value it
    parses to;
  \<^item> \<open>yaml.dump\<close>: the text it writes is represented by the Python value it was given
    (\<open>Yaml_Dump\<close>); nothing is assumed about how that text reads back.
\<close>

subsection \<open>Python values\<close>

text \<open>
  The values \<open>yaml.safe_load\<close> builds from plain YAML: \<open>None\<close>, booleans, integers,
  strings, lists and dicts. A dict is an association list in iteration order. Floats,
  timestamps, binaries and \<open>!!set\<close> nodes are left out. A string is a list of characters;
  iterating it gives its one-character strings.
\<close>

datatype yval =
    YNull
  | YBool bool
  | YInt int
  | YStr string
  | YList "yval list"
  | YMap "(yval \<times> yval) list"

text \<open>The exceptions the function can raise.\<close>

datatype error = OSError | ParseError | AttributeError | KeyError | TypeError | ValueError

text \<open>Truth value of a Python object, as \<open>if yaml_data:\<close> tests it.\<close>

fun truthy :: "yval \<Rightarrow> bool" where
  "truthy YNull = False"
| "truthy (YBool b) = b"
| "truthy (YInt n) = (n \<noteq> 0)"
| "truthy (YStr s) = (s \<noteq> [])"
| "truthy (YList xs) = (xs \<noteq> [])"
| "truthy (YMap kvs) = (kvs \<noteq> [])"

text \<open>Lists and dicts cannot be set elements or dict keys (\<open>TypeError: unhashable type\<close>).\<close>

fun hashable :: "yval \<Rightarrow> bool" where
  "hashable (YList xs) = False"
| "hashable (YMap kvs) = False"
| "hashable v = True"

text \<open>
  Python compares set elements and dict keys with \<open>==\<close>, under which \<open>True == 1\<close> and
  \<open>False == 0\<close>. \<open>key_norm\<close> maps a hashable value to the representative of its class:
  two hashable values are the same key exactly when their \<open>key_norm\<close> is equal.
\<close>

fun key_norm :: "yval \<Rightarrow> yval" where
  "key_norm (YBool b) = YInt (if b then 1 else 0)"
| "key_norm v = v"

text \<open>
  \<open>iter(v)\<close>: the elements a \<open>for\<close> loop over \<open>v\<close> sees, or \<open>TypeError\<close> for a value that
  is not iterable. A string yields its characters, a dict its keys.
\<close>

fun py_iter :: "yval \<Rightarrow> error + yval list" where
  "py_iter (YList xs) = Inr xs"
| "py_iter (YStr s) = Inr (map (\<lambda>c. YStr [c]) s)"
| "py_iter (YMap kvs) = Inr (map fst kvs)"
| "py_iter v = Inl TypeError"

subsection \<open>Sets and \<open>set.update\<close>\<close>

text \<open>
  A Python set is a list without repetition (up to \<open>==\<close>), in order of insertion.
  \<open>set_add\<close> is \<open>s.add(x)\<close>: an element already present is kept as it is.
\<close>

definition set_add :: "yval \<Rightarrow> yval list \<Rightarrow> error + yval list" where
  "set_add x s =
     (if \<not> hashable x then Inl TypeError
      else if key_norm x \<in> set (map key_norm s) then Inr s
      else Inr (s @ [x]))"

fun add_all :: "yval list \<Rightarrow> yval list \<Rightarrow> error + yval list" where
  "add_all s [] = Inr s"
| "add_all s (x # xs) =
     (case set_add x s of Inl e \<Rightarrow> Inl e | Inr s' \<Rightarrow> add_all s' xs)"

text \<open>\<open>s.update(v)\<close>: add every element of the iterable \<open>v\<close>.\<close>

definition set_update :: "yval list \<Rightarrow> yval \<Rightarrow> error + yval list" where
  "set_update s v = (case py_iter v of Inl e \<Rightarrow> Inl e | Inr xs \<Rightarrow> add_all s xs)"

subsection \<open>Dicts and \<open>dict.update\<close>\<close>

text \<open>\<open>d[k] = v\<close>: an existing key keeps its place and its key object, a new key goes last.\<close>

fun dict_set :: "yval \<Rightarrow> yval \<Rightarrow> (yval \<times> yval) list \<Rightarrow> (yval \<times> yval) list" where
  "dict_set k v [] = [(k, v)]"
| "dict_set k v ((k', v') # d) =
     (if key_norm k' = key_norm k then (k', v) # d else (k', v') # dict_set k v d)"

text \<open>\<open>d.update(other)\<close> for a dict \<open>other\<close>: every item of \<open>other\<close> is stored in \<open>d\<close>.\<close>

fun dict_merge :: "(yval \<times> yval) list \<Rightarrow> (yval \<times> yval) list \<Rightarrow> (yval \<times> yval) list" where
  "dict_merge d [] = d"
| "dict_merge d ((k, v) # kvs) = dict_merge (dict_set k v d) kvs"

text \<open>
  \<open>d.update(other)\<close> for an iterable that is not a dict: every element must itself be
  iterable (else \<open>TypeError\<close>) with exactly two elements (else \<open>ValueError\<close>), a key,
  which must be hashable, and the object stored under it.
\<close>

definition pair_of :: "yval \<Rightarrow> error + (yval \<times> yval)" where
  "pair_of item =
     (case py_iter item of
        Inl e \<Rightarrow> Inl TypeError
      | Inr [k, v] \<Rightarrow> (if hashable k then Inr (k, v) else Inl TypeError)
      | Inr other \<Rightarrow> Inl ValueError)"

fun merge_pairs :: "(yval \<times> yval) list \<Rightarrow> yval list \<Rightarrow> error + (yval \<times> yval) list" where
  "merge_pairs d [] = Inr d"
| "merge_pairs d (item # items) =
     (case pair_of item of
        Inl e \<Rightarrow> Inl e
      | Inr (k, v) \<Rightarrow> merge_pairs (dict_set k v d) items)"

definition dict_update :: "(yval \<times> yval) list \<Rightarrow> yval \<Rightarrow> error + (yval \<times> yval) list" where
  "dict_update d other =
     (case other of
        YMap kvs \<Rightarrow> Inr (dict_merge d kvs)
      | _ \<Rightarrow> (case py_iter other of Inl e \<Rightarrow> Inl e | Inr items \<Rightarrow> merge_pairs d items))"

subsection \<open>The accumulator \<open>data\<close>\<close>

text \<open>
  \<open>data\<close> maps the five domain keys to a dict or a set, in the order the literal lists
  them. \<open>data[k].update(v)\<close> dispatches on the object stored under \<open>k\<close>.
\<close>

datatype container = PyDict "(yval \<times> yval) list" | PySet "yval list"

type_synonym domain_data = "(string \<times> container) list"

definition initial_data :: domain_data where
  "initial_data =
     [(''slots'', PyDict []),
      (''entities'', PySet []),
      (''intents'', PySet []),
      (''templates'', PyDict []),
      (''actions'', PySet [])]"

definition container_update :: "container \<Rightarrow> yval \<Rightarrow> error + container" where
  "container_update c v =
     (case c of
        PyDict d \<Rightarrow> (case dict_update d v of Inl e \<Rightarrow> Inl e | Inr d' \<Rightarrow> Inr (PyDict d'))
      | PySet s \<Rightarrow> (case set_update s v of Inl e \<Rightarrow> Inl e | Inr s' \<Rightarrow> Inr (PySet s')))"

text \<open>\<open>data[k]\<close>: the keys of \<open>data\<close> are strings, so any other key is missing.\<close>

fun data_get :: "domain_data \<Rightarrow> yval \<Rightarrow> (string \<times> container) option" where
  "data_get data (YStr name) = map_option (Pair name) (map_of data name)"
| "data_get data k = None"

text \<open>The loop body \<open>data[k].update(v)\<close>; a key that \<open>data\<close> lacks raises \<open>KeyError\<close>.\<close>

definition merge_item :: "domain_data \<Rightarrow> yval \<times> yval \<Rightarrow> error + domain_data" where
  "merge_item data kv =
     (case data_get data (fst kv) of
        None \<Rightarrow> Inl KeyError
      | Some (name, c) \<Rightarrow>
          (case container_update c (snd kv) of
             Inl e \<Rightarrow> Inl e
           | Inr c' \<Rightarrow> Inr (AList.update name c' data)))"

text \<open>\<open>for k, v in yaml_data.items(): data[k].update(v)\<close>\<close>

fun merge_items :: "domain_data \<Rightarrow> (yval \<times> yval) list \<Rightarrow> error + domain_data" where
  "merge_items data [] = Inr data"
| "merge_items data (kv # kvs) =
     (case merge_item data kv of Inl e \<Rightarrow> Inl e | Inr data' \<Rightarrow> merge_items data' kvs)"

text \<open>
  \<open>if yaml_data: for k, v in yaml_data.items(): ...\<close>: a false value is skipped; a true value
  that is not a dict has no \<open>items\<close> (\<open>AttributeError\<close>).
\<close>

definition merge_value :: "domain_data \<Rightarrow> yval \<Rightarrow> error + domain_data" where
  "merge_value data yaml_data =
     (if truthy yaml_data then
        (case yaml_data of YMap kvs \<Rightarrow> merge_items data kvs | _ \<Rightarrow> Inl AttributeError)
      else Inr data)"

text \<open>What \<open>yaml.safe_load(open(yml_file))\<close> does on one matched file.\<close>

datatype load_outcome = Unreadable | Malformed | Parsed yval

definition merge_file :: "domain_data \<Rightarrow> load_outcome \<Rightarrow> error + domain_data" where
  "merge_file data f =
     (case f of
        Unreadable \<Rightarrow> Inl OSError
      | Malformed \<Rightarrow> Inl ParseError
      | Parsed yaml_data \<Rightarrow> merge_value data yaml_data)"

text \<open>The loop over the matched files: the first exception ends it.\<close>

fun merge_files :: "domain_data \<Rightarrow> load_outcome list \<Rightarrow> error + domain_data" where
  "merge_files data [] = Inr data"
| "merge_files data (f # fs) =
     (case merge_file data f of Inl e \<Rightarrow> Inl e | Inr data' \<Rightarrow> merge_files data' fs)"

subsection \<open>The written document\<close>

text \<open>
  The second loop replaces every set by \<open>list(v)\<close> and runs \<open>data[k].update(v)\<close> on every
  dict with the dict itself. A set is iterated in an order Python does not specify, so
  \<open>list\<close> is the parameter \<open>order\<close>, which \<open>arbitrary_order\<close> constrains to rearrange its
  argument and nothing more.
\<close>

definition arbitrary_order :: "(yval list \<Rightarrow> yval list) \<Rightarrow> bool" where
  "arbitrary_order order = (\<forall>xs. mset (order xs) = mset xs)"

fun final_value :: "(yval list \<Rightarrow> yval list) \<Rightarrow> container \<Rightarrow> yval" where
  "final_value order (PySet s) = YList (order s)"
| "final_value order (PyDict d) = YMap (dict_merge d d)"

definition final_document :: "(yval list \<Rightarrow> yval list) \<Rightarrow> domain_data \<Rightarrow> yval" where
  "final_document order data = YMap (map (\<lambda>(name, c). (YStr name, final_value order c)) data)"

subsection \<open>\<open>get_domain_file\<close>\<close>

text \<open>
  The files the function writes: a path holds an empty file or the text \<open>yaml.dump\<close> wrote
  for a value.
\<close>

datatype file_content = Empty_File | Yaml_Dump yval

type_synonym file_system = "string \<Rightarrow> file_content option"

text \<open>
  \<open>filepath\<close> is the name \<open>tempfile.NamedTemporaryFile\<close> picks. The file is created, then
  opened for writing (which truncates it), then the fragments are merged, and only after
  both loops is the document dumped. An exception leaves the \<open>with\<close> block, which closes
  the file; nothing removes it (\<open>delete=False\<close>).
\<close>

definition get_domain_file ::
  "(yval list \<Rightarrow> yval list) \<Rightarrow> string \<Rightarrow> load_outcome list \<Rightarrow> load_outcome list \<Rightarrow>
     file_system \<Rightarrow> (error + string) \<times> file_system" where
  "get_domain_file order filepath ymls yamls fs =
     (let created = fs(filepath \<mapsto> Empty_File);
          opened = created(filepath \<mapsto> Empty_File)
      in case merge_files initial_data (ymls @ yamls) of
           Inl e \<Rightarrow> (Inl e, opened)
         | Inr data \<Rightarrow> (Inr filepath, opened(filepath \<mapsto> Yaml_Dump (final_document order data))))"

text \<open>Reading a field of a document.\<close>

definition doc_field :: "yval \<Rightarrow> string \<Rightarrow> yval option" where
  "doc_field doc name = (case doc of YMap kvs \<Rightarrow> map_of kvs (YStr name) | _ \<Rightarrow> None)"

subsection \<open>Predicates used in the statements\<close>

text \<open>
  \<open>py_distinct\<close>: no two elements of the list are equal under Python's \<open>==\<close>;
  \<open>elements\<close>: the elements of a collection, each by its representative.
\<close>

definition py_distinct :: "yval list \<Rightarrow> bool" where
  "py_distinct s = distinct (map key_norm s)"

definition elements :: "yval list \<Rightarrow> yval set" where
  "elements s = set (map key_norm s)"

text \<open>\<open>dict_distinct\<close>: every key occurs once, as in any Python dict; \<open>dict_get\<close> is \<open>d.get(k)\<close>.\<close>

definition dict_distinct :: "(yval \<times> yval) list \<Rightarrow> bool" where
  "dict_distinct d = distinct (map (\<lambda>kv. key_norm (fst kv)) d)"

definition dict_get :: "(yval \<times> yval) list \<Rightarrow> yval \<Rightarrow> yval option" where
  "dict_get d k = map_of (map (\<lambda>kv. (key_norm (fst kv), snd kv)) d) (key_norm k)"

text \<open>
  The invariant of \<open>data\<close> during the first loop: the five keys in their order, each with
  the kind of object it started with, sets and dicts without repeated elements or keys.
\<close>

fun is_dict :: "container \<Rightarrow> bool" where
  "is_dict (PyDict d) = True"
| "is_dict (PySet s) = False"

fun container_ok :: "container \<Rightarrow> bool" where
  "container_ok (PyDict d) = dict_distinct d"
| "container_ok (PySet s) = py_distinct s"

definition kinds :: "domain_data \<Rightarrow> (string \<times> bool) list" where
  "kinds data = map (\<lambda>nc. (fst nc, is_dict (snd nc))) data"

definition data_ok :: "domain_data \<Rightarrow> bool" where
  "data_ok data = (kinds data = kinds initial_data \<and> list_all (\<lambda>nc. container_ok (snd nc)) data)"

text \<open>
  The fragments the data model of the specification describes: an empty file, or a
  mapping from \<open>slots\<close> and \<open>templates\<close> to mappings and from \<open>entities\<close>, \<open>intents\<close> and
  \<open>actions\<close> to lists of hashable values.
\<close>

definition dict_key :: "string \<Rightarrow> bool" where
  "dict_key name = (name = ''slots'' \<or> name = ''templates'')"

definition set_key :: "string \<Rightarrow> bool" where
  "set_key name = (name = ''entities'' \<or> name = ''intents'' \<or> name = ''actions'')"

fun well_shaped_item :: "yval \<times> yval \<Rightarrow> bool" where
  "well_shaped_item (YStr name, YMap m) = dict_key name"
| "well_shaped_item (YStr name, YList xs) = (set_key name \<and> list_all hashable xs)"
| "well_shaped_item kv = False"

fun well_shaped :: "load_outcome \<Rightarrow> bool" where
  "well_shaped (Parsed YNull) = True"
| "well_shaped (Parsed (YMap kvs)) = list_all well_shaped_item kvs"
| "well_shaped f = False"

text \<open>A dict, as opposed to every other value a fragment can parse to.\<close>

fun is_mapping :: "yval \<Rightarrow> bool" where
  "is_mapping (YMap kvs) = True"
| "is_mapping v = False"

text \<open>The five recognised keys.\<close>

definition domain_keys :: "yval set" where
  "domain_keys = YStr ` {''slots'', ''entities'', ''intents'', ''templates'', ''actions''}"

section \<open>Sets and dicts\<close>

lemma set_add_elems:
  "set_add x s = Inr s' \<Longrightarrow> key_norm ` set s' = insert (key_norm x) (key_norm ` set s)"
  by (auto simp: set_add_def split: if_splits)

lemma set_add_distinct:
  "set_add x s = Inr s' \<Longrightarrow> py_distinct s \<Longrightarrow> py_distinct s'"
  by (auto simp: set_add_def py_distinct_def split: if_splits)

lemma set_add_hashable:
  "hashable x \<Longrightarrow> \<exists>s'. set_add x s = Inr s'"
  by (simp add: set_add_def)

lemma add_all_elems:
  "add_all s xs = Inr s' \<Longrightarrow> key_norm ` set s' = key_norm ` set s \<union> key_norm ` set xs"
proof (induction xs arbitrary: s)
  case Nil
  then show ?case by simp
next
  case (Cons x xs)
  then obtain s1 where a: "set_add x s = Inr s1" and b: "add_all s1 xs = Inr s'"
    by (auto split: sum.splits)
  from Cons.IH [OF b] set_add_elems [OF a] show ?case by auto
qed

lemma add_all_distinct:
  "add_all s xs = Inr s' \<Longrightarrow> py_distinct s \<Longrightarrow> py_distinct s'"
  by (induction xs arbitrary: s) (auto split: sum.splits dest: set_add_distinct)

lemma add_all_hashable:
  "list_all hashable xs \<Longrightarrow> \<exists>s'. add_all s xs = Inr s'"
proof (induction xs arbitrary: s)
  case Nil
  then show ?case by simp
next
  case (Cons x xs)
  then obtain s1 where "set_add x s = Inr s1"
    using set_add_hashable [of x s] by auto
  with Cons show ?case by simp
qed

lemma dict_set_keys:
  "map (\<lambda>kv. key_norm (fst kv)) (dict_set k v d) =
     (if key_norm k \<in> set (map (\<lambda>kv. key_norm (fst kv)) d)
      then map (\<lambda>kv. key_norm (fst kv)) d
      else map (\<lambda>kv. key_norm (fst kv)) d @ [key_norm k])"
  by (induction d) (force split: if_splits)+

lemma dict_set_distinct: "dict_distinct d \<Longrightarrow> dict_distinct (dict_set k v d)"
  by (simp add: dict_distinct_def dict_set_keys)

lemma dict_merge_distinct: "dict_distinct d \<Longrightarrow> dict_distinct (dict_merge d kvs)"
  by (induction d kvs rule: dict_merge.induct) (auto simp: dict_set_distinct)

lemma merge_pairs_distinct:
  "merge_pairs d items = Inr d' \<Longrightarrow> dict_distinct d \<Longrightarrow> dict_distinct d'"
  by (induction items arbitrary: d) (auto split: sum.splits simp: dict_set_distinct)

lemma dict_update_distinct:
  "dict_update d v = Inr d' \<Longrightarrow> dict_distinct d \<Longrightarrow> dict_distinct d'"
  by (cases v) (auto simp: dict_update_def dict_merge_distinct split: sum.splits dest: merge_pairs_distinct)

lemma dict_get_set:
  "dict_get (dict_set k v d) k' = (if key_norm k' = key_norm k then Some v else dict_get d k')"
  by (induction d) (auto simp: dict_get_def)

lemma dict_get_merge_other:
  "key_norm k \<notin> set (map (\<lambda>kv. key_norm (fst kv)) kvs) \<Longrightarrow>
     dict_get (dict_merge d kvs) k = dict_get d k"
  by (induction d kvs rule: dict_merge.induct) (auto simp: dict_get_set)

lemma dict_get_merge:
  "dict_distinct kvs \<Longrightarrow> (k, v) \<in> set kvs \<Longrightarrow> dict_get (dict_merge d kvs) k = Some v"
proof (induction d kvs rule: dict_merge.induct)
  case (1 d)
  then show ?case by simp
next
  case (2 d k0 v0 kvs)
  show ?case
  proof (cases "(k, v) = (k0, v0)")
    case True
    with "2.prems" have "key_norm k \<notin> set (map (\<lambda>kv. key_norm (fst kv)) kvs)"
      by (simp add: dict_distinct_def)
    then show ?thesis using True by (simp add: dict_get_merge_other dict_get_set)
  next
    case False
    with "2.prems" have "(k, v) \<in> set kvs" "dict_distinct kvs"
      by (auto simp: dict_distinct_def)
    then show ?thesis using "2.IH" by simp
  qed
qed

lemma dict_set_present:
  "dict_distinct d \<Longrightarrow> (k, v) \<in> set d \<Longrightarrow> dict_set k v d = d"
  by (induction d) (force simp: dict_distinct_def)+

lemma dict_merge_subset:
  "dict_distinct d \<Longrightarrow> set kvs \<subseteq> set d \<Longrightarrow> dict_merge d kvs = d"
  by (induction d kvs rule: dict_merge.induct) (auto simp: dict_set_present)

lemma dict_merge_self: "dict_distinct d \<Longrightarrow> dict_merge d d = d"
  by (simp add: dict_merge_subset)

lemma elements_add_all:
  "add_all s xs = Inr s' \<Longrightarrow> elements s' = elements s \<union> elements xs"
  using add_all_elems [of s xs s'] by (simp add: elements_def)

section \<open>The invariant of the accumulator\<close>

lemma data_ok_initial: "data_ok initial_data"
  by (simp add: data_ok_def initial_data_def py_distinct_def dict_distinct_def)

lemma data_okD:
  assumes "data_ok data"
  shows "\<exists>s e i t a. data =
     [(''slots'', PyDict s), (''entities'', PySet e), (''intents'', PySet i),
      (''templates'', PyDict t), (''actions'', PySet a)]
     \<and> dict_distinct s \<and> py_distinct e \<and> py_distinct i \<and> dict_distinct t \<and> py_distinct a"
proof -
  from assms have k: "kinds data = kinds initial_data"
    and ok: "list_all (\<lambda>nc. container_ok (snd nc)) data"
    by (simp_all add: data_ok_def)
  from k obtain c1 c2 c3 c4 c5 where d: "data =
     [(''slots'', c1), (''entities'', c2), (''intents'', c3), (''templates'', c4), (''actions'', c5)]"
    and "is_dict c1" "\<not> is_dict c2" "\<not> is_dict c3" "is_dict c4" "\<not> is_dict c5"
    by (auto simp: kinds_def initial_data_def map_eq_Cons_conv)
  then obtain s e i t a where "c1 = PyDict s" "c2 = PySet e" "c3 = PySet i" "c4 = PyDict t" "c5 = PySet a"
    by (cases c1; cases c2; cases c3; cases c4; cases c5) auto
  with d ok show ?thesis by simp
qed

lemma container_update_kind:
  "container_update c v = Inr c' \<Longrightarrow> is_dict c' = is_dict c"
  by (cases c) (auto simp: container_update_def split: sum.splits)

lemma container_update_ok:
  "container_update c v = Inr c' \<Longrightarrow> container_ok c \<Longrightarrow> container_ok c'"
  by (cases c)
     (auto simp: container_update_def set_update_def split: sum.splits
           dest: dict_update_distinct add_all_distinct)

lemma kinds_update:
  "map_of data name = Some c \<Longrightarrow> is_dict c' = is_dict c \<Longrightarrow>
     kinds (AList.update name c' data) = kinds data"
  by (induction data) (auto simp: kinds_def)

lemma list_all_update:
  "list_all (\<lambda>nc. P (snd nc)) data \<Longrightarrow> P c' \<Longrightarrow>
     list_all (\<lambda>nc. P (snd nc)) (AList.update name c' data)"
  by (induction data) auto

lemma data_get_Some:
  "data_get data k = Some (name, c) \<Longrightarrow> k = YStr name \<and> map_of data name = Some c"
  by (cases k) auto

lemma merge_item_ok:
  assumes "merge_item data kv = Inr data'" and "data_ok data"
  shows "data_ok data'"
proof -
  from assms(1) obtain name c c' where g: "data_get data (fst kv) = Some (name, c)"
    and u: "container_update c (snd kv) = Inr c'" and d: "data' = AList.update name c' data"
    by (auto simp: merge_item_def split: option.splits sum.splits)
  from g have m: "map_of data name = Some c" by (simp add: data_get_Some)
  from m have "(name, c) \<in> set data" by (rule map_of_SomeD)
  with assms(2) have "container_ok c" by (auto simp: data_ok_def list_all_iff)
  with u have "container_ok c'" by (rule container_update_ok)
  with assms(2) m u d show ?thesis
    by (simp add: data_ok_def kinds_update container_update_kind list_all_update)
qed

lemma merge_items_ok:
  "merge_items data kvs = Inr data' \<Longrightarrow> data_ok data \<Longrightarrow> data_ok data'"
  by (induction kvs arbitrary: data) (auto split: sum.splits dest: merge_item_ok)

lemma merge_value_ok:
  "merge_value data v = Inr data' \<Longrightarrow> data_ok data \<Longrightarrow> data_ok data'"
  by (cases v) (auto simp: merge_value_def split: if_splits dest: merge_items_ok)

lemma merge_file_ok:
  "merge_file data f = Inr data' \<Longrightarrow> data_ok data \<Longrightarrow> data_ok data'"
  by (cases f) (auto simp: merge_file_def dest: merge_value_ok)

lemma merge_files_ok:
  "merge_files data fs = Inr data' \<Longrightarrow> data_ok data \<Longrightarrow> data_ok data'"
  by (induction fs arbitrary: data) (auto split: sum.splits dest: merge_file_ok)

text \<open>
  What one fragment does to the object stored under a key: nothing when the fragment
  lacks the key, one \<open>update\<close> when it has it.
\<close>

lemma merge_item_other:
  "merge_item data kv = Inr data' \<Longrightarrow> fst kv \<noteq> YStr n \<Longrightarrow> map_of data' n = map_of data n"
  by (auto simp: merge_item_def update_conv' split: option.splits sum.splits dest!: data_get_Some)

lemma merge_item_same:
  "merge_item data (YStr n, v) = Inr data' \<Longrightarrow>
     \<exists>c c'. map_of data n = Some c \<and> container_update c v = Inr c' \<and> map_of data' n = Some c'"
  by (auto simp: merge_item_def update_conv' split: option.splits sum.splits)

lemma merge_items_other:
  "merge_items data kvs = Inr data' \<Longrightarrow> YStr n \<notin> fst ` set kvs \<Longrightarrow> map_of data' n = map_of data n"
proof (induction kvs arbitrary: data)
  case Nil
  then show ?case by simp
next
  case (Cons kv kvs)
  then obtain d1 where a: "merge_item data kv = Inr d1" and b: "merge_items d1 kvs = Inr data'"
    by (auto split: sum.splits)
  from Cons.prems have "fst kv \<noteq> YStr n" "YStr n \<notin> fst ` set kvs" by auto
  with Cons.IH [OF b] merge_item_other [OF a] show ?case by simp
qed

lemma merge_items_field:
  "merge_items data kvs = Inr data' \<Longrightarrow> distinct (map fst kvs) \<Longrightarrow> (YStr n, v) \<in> set kvs \<Longrightarrow>
     \<exists>c c'. map_of data n = Some c \<and> container_update c v = Inr c' \<and> map_of data' n = Some c'"
proof (induction kvs arbitrary: data)
  case Nil
  then show ?case by simp
next
  case (Cons kv kvs)
  then obtain d1 where a: "merge_item data kv = Inr d1" and b: "merge_items d1 kvs = Inr data'"
    by (auto split: sum.splits)
  show ?case
  proof (cases "kv = (YStr n, v)")
    case True
    with Cons.prems have "YStr n \<notin> fst ` set kvs" by auto
    with b have "map_of data' n = map_of d1 n" by (rule merge_items_other)
    with merge_item_same [of data n v d1] a True show ?thesis by auto
  next
    case False
    with Cons.prems have in_rest: "(YStr n, v) \<in> set kvs" and dist: "distinct (map fst kvs)"
      and "fst kv \<noteq> YStr n" by (auto simp: image_iff)
    with merge_item_other [OF a] have "map_of d1 n = map_of data n" by simp
    with Cons.IH [OF b dist in_rest] show ?thesis by simp
  qed
qed

lemma doc_field_final:
  "doc_field (final_document order data) n = map_option (final_value order) (map_of data n)"
  by (induction data) (auto simp: doc_field_def final_document_def)

section \<open>Fragments that merge, fragments that abort\<close>

lemma data_ok_dict:
  assumes "data_ok data" and "dict_key name"
  shows "\<exists>d. map_of data name = Some (PyDict d)"
proof -
  from data_okD [OF assms(1)] obtain s e i t a where d: "data =
     [(''slots'', PyDict s), (''entities'', PySet e), (''intents'', PySet i),
      (''templates'', PyDict t), (''actions'', PySet a)]" by blast
  from assms(2) have "name = ''slots'' \<or> name = ''templates''" by (simp add: dict_key_def)
  then show ?thesis
  proof
    assume "name = ''slots''"
    with d show ?thesis by simp
  next
    assume "name = ''templates''"
    with d show ?thesis by simp
  qed
qed

lemma data_ok_set:
  assumes "data_ok data" and "set_key name"
  shows "\<exists>s. map_of data name = Some (PySet s)"
proof -
  from data_okD [OF assms(1)] obtain s e i t a where d: "data =
     [(''slots'', PyDict s), (''entities'', PySet e), (''intents'', PySet i),
      (''templates'', PyDict t), (''actions'', PySet a)]" by blast
  from assms(2) consider "name = ''entities''" | "name = ''intents''" | "name = ''actions''"
    unfolding set_key_def by (elim disjE)
  then show ?thesis
  proof cases
    case 1
    with d show ?thesis by simp
  next
    case 2
    with d show ?thesis by simp
  next
    case 3
    with d show ?thesis by simp
  qed
qed

lemma well_shaped_item_cases:
  assumes "well_shaped_item kv"
  obtains (dict) name m where "kv = (YStr name, YMap m)" "dict_key name"
    | (set) name xs where "kv = (YStr name, YList xs)" "set_key name" "list_all hashable xs"
  using assms by (cases kv rule: well_shaped_item.cases) auto

lemma merge_item_dict:
  "map_of data name = Some (PyDict d) \<Longrightarrow>
     merge_item data (YStr name, YMap m) = Inr (AList.update name (PyDict (dict_merge d m)) data)"
  by (simp add: merge_item_def container_update_def dict_update_def)

lemma merge_item_set:
  "map_of data name = Some (PySet s) \<Longrightarrow>
     merge_item data (YStr name, v) =
       (case set_update s v of Inl e \<Rightarrow> Inl e | Inr s' \<Rightarrow> Inr (AList.update name (PySet s') data))"
  by (simp add: merge_item_def container_update_def split: sum.splits)

lemma merge_item_well_shaped:
  assumes "data_ok data" and "well_shaped_item kv"
  shows "\<exists>data'. merge_item data kv = Inr data'"
  using assms(2)
proof (cases rule: well_shaped_item_cases)
  case (dict name m)
  from data_ok_dict [OF assms(1) dict(2)] obtain d where "map_of data name = Some (PyDict d)" ..
  with dict(1) show ?thesis by (simp add: merge_item_dict)
next
  case (set name xs)
  from data_ok_set [OF assms(1) set(2)] obtain s where m: "map_of data name = Some (PySet s)" ..
  from add_all_hashable [OF set(3), of s] obtain s' where "add_all s xs = Inr s'" ..
  with set(1) m show ?thesis by (simp add: merge_item_set set_update_def)
qed

lemma merge_items_well_shaped:
  "data_ok data \<Longrightarrow> list_all well_shaped_item kvs \<Longrightarrow> \<exists>data'. merge_items data kvs = Inr data'"
proof (induction kvs arbitrary: data)
  case Nil
  then show ?case by simp
next
  case (Cons kv kvs)
  then obtain d1 where a: "merge_item data kv = Inr d1"
    using merge_item_well_shaped [of data kv] by auto
  with Cons.prems have "data_ok d1" by (auto dest: merge_item_ok)
  with Cons.IH [of d1] Cons.prems a show ?case by simp
qed

lemma merge_file_well_shaped:
  assumes "data_ok data" and "well_shaped f"
  shows "\<exists>data'. merge_file data f = Inr data'"
  using assms(2)
proof (cases f rule: well_shaped.cases)
  case (2 kvs)
  with assms merge_items_well_shaped [of data kvs] show ?thesis
    by (auto simp: merge_file_def merge_value_def)
qed (simp_all add: merge_file_def merge_value_def)

lemma merge_files_well_shaped:
  "data_ok data \<Longrightarrow> list_all well_shaped fs \<Longrightarrow> \<exists>data'. merge_files data fs = Inr data'"
proof (induction fs arbitrary: data)
  case Nil
  then show ?case by simp
next
  case (Cons f fs)
  then obtain d1 where a: "merge_file data f = Inr d1"
    using merge_file_well_shaped [of data f] by auto
  with Cons.prems have "data_ok d1" by (auto dest: merge_file_ok)
  with Cons.IH [of d1] Cons.prems a show ?case by simp
qed

text \<open>A file on which \<open>merge_file\<close> raises whatever has been merged so far aborts the loop.\<close>

lemma merge_files_abort:
  assumes "f \<in> set fs"
    and "\<And>d. data_ok d \<Longrightarrow> \<exists>e. merge_file d f = Inl e"
    and "data_ok data"
  shows "\<exists>e. merge_files data fs = Inl e"
  using assms(1,3)
proof (induction fs arbitrary: data)
  case Nil
  then show ?case by simp
next
  case (Cons g fs)
  show ?case
  proof (cases "merge_file data g")
    case (Inl e)
    then show ?thesis by simp
  next
    case (Inr d1)
    with Cons.prems have ok: "data_ok d1" by (auto dest: merge_file_ok)
    have "g \<noteq> f" using Inr assms(2) [OF Cons.prems(2)] by auto
    with Cons.prems have "f \<in> set fs" by simp
    from Cons.IH [OF this ok] Inr show ?thesis by simp
  qed
qed

lemma data_get_unknown:
  assumes "data_ok data" and "k \<notin> domain_keys"
  shows "data_get data k = None"
proof -
  from data_okD [OF assms(1)] obtain s e i t a where d: "data =
     [(''slots'', PyDict s), (''entities'', PySet e), (''intents'', PySet i),
      (''templates'', PyDict t), (''actions'', PySet a)]" by blast
  with assms(2) show ?thesis by (cases k) (auto simp: domain_keys_def)
qed

lemma merge_items_unknown:
  "k \<in> fst ` set kvs \<Longrightarrow> k \<notin> domain_keys \<Longrightarrow> data_ok data \<Longrightarrow> \<exists>e. merge_items data kvs = Inl e"
proof (induction kvs arbitrary: data)
  case Nil
  then show ?case by simp
next
  case (Cons kv kvs)
  show ?case
  proof (cases "merge_item data kv")
    case (Inl e)
    then show ?thesis by simp
  next
    case (Inr d1)
    with Cons.prems have ok: "data_ok d1" by (auto dest: merge_item_ok)
    have "fst kv \<noteq> k"
      using Inr data_get_unknown [OF Cons.prems(3,2)] by (auto simp: merge_item_def)
    with Cons.prems have "k \<in> fst ` set kvs" by auto
    from Cons.IH [OF this Cons.prems(2) ok] Inr show ?thesis by simp
  qed
qed

lemma merge_files_malformed:
  "Malformed \<in> set fs \<Longrightarrow>
     merge_files data fs =
       (case merge_files data (takeWhile (\<lambda>f. f \<noteq> Malformed) fs) of
          Inl e \<Rightarrow> Inl e
        | Inr d \<Rightarrow> Inl ParseError)"
  by (induction fs arbitrary: data) (auto simp: merge_file_def split: sum.splits)

section \<open>The run of \<open>get_domain_file\<close>\<close>

lemma get_domain_file_Inr:
  "get_domain_file order filepath ymls yamls fs = (Inr p, fs') \<longleftrightarrow>
     p = filepath \<and>
     (\<exists>data. merge_files initial_data (ymls @ yamls) = Inr data \<and>
        fs' = fs(filepath \<mapsto> Yaml_Dump (final_document order data)))"
  by (auto simp: get_domain_file_def Let_def split: sum.splits)

lemma get_domain_file_Inl:
  "get_domain_file order filepath ymls yamls fs = (Inl e, fs') \<longleftrightarrow>
     merge_files initial_data (ymls @ yamls) = Inl e \<and> fs' = fs(filepath \<mapsto> Empty_File)"
  by (auto simp: get_domain_file_def Let_def split: sum.splits)

lemma well_shaped_run:
  "list_all well_shaped (ymls @ yamls) \<Longrightarrow>
     \<exists>fs'. get_domain_file order filepath ymls yamls fs = (Inr filepath, fs')"
  using merge_files_well_shaped [OF data_ok_initial, of "ymls @ yamls"]
  by (auto simp: get_domain_file_Inr)

lemma order_set: "arbitrary_order order \<Longrightarrow> set (order xs) = set xs"
  by (auto simp: arbitrary_order_def dest: mset_eq_setD)

lemma order_elements: "arbitrary_order order \<Longrightarrow> elements (order xs) = elements xs"
  by (simp add: elements_def order_set)

lemma order_distinct: "arbitrary_order order \<Longrightarrow> py_distinct (order xs) = py_distinct xs"
proof -
  assume "arbitrary_order order"
  then have "mset (map key_norm (order xs)) = mset (map key_norm xs)"
    by (simp add: arbitrary_order_def)
  then show ?thesis unfolding py_distinct_def by (rule mset_eq_imp_distinct_iff)
qed

lemma two_files:
  assumes "merge_files data [Parsed (YMap kvs1), Parsed (YMap kvs2)] = Inr data'"
    and "kvs1 \<noteq> []" and "kvs2 \<noteq> []"
  shows "\<exists>d1. merge_items data kvs1 = Inr d1 \<and> merge_items d1 kvs2 = Inr data'"
  using assms by (auto simp: merge_file_def merge_value_def split: sum.splits)

lemma container_update_set_list:
  "container_update (PySet s) (YList xs) = Inr c' \<Longrightarrow> \<exists>s'. c' = PySet s' \<and> add_all s xs = Inr s'"
  by (auto simp: container_update_def set_update_def split: sum.splits)

lemma container_update_dict_map:
  "container_update (PyDict d) (YMap m) = Inr c' \<Longrightarrow> c' = PyDict (dict_merge d m)"
  by (auto simp: container_update_def dict_update_def split: sum.splits)

lemma elements_Nil: "elements [] = {}"
  by (simp add: elements_def)

lemma py_distinct_Nil: "py_distinct []"
  by (simp add: py_distinct_def)

lemma dict_distinct_Nil: "dict_distinct []"
  by (simp add: dict_distinct_def)

lemma initial_intents: "map_of initial_data ''intents'' = Some (PySet [])"
  by (simp add: initial_data_def)

lemma initial_dict: "dict_key key \<Longrightarrow> map_of initial_data key = Some (PyDict [])"
  unfolding dict_key_def by (elim disjE) (simp_all add: initial_data_def)

lemma initial_set: "set_key key \<Longrightarrow> map_of initial_data key = Some (PySet [])"
  unfolding set_key_def by (elim disjE) (simp_all add: initial_data_def)

lemma final_document_shape:
  assumes "data_ok data" and "arbitrary_order order"
  shows "\<exists>s e i t a. final_document order data = YMap
     [(YStr ''slots'', YMap s),
      (YStr ''entities'', YList e),
      (YStr ''intents'', YList i),
      (YStr ''templates'', YMap t),
      (YStr ''actions'', YList a)]
     \<and> dict_distinct s \<and> py_distinct e \<and> py_distinct i \<and> dict_distinct t \<and> py_distinct a"
proof -
  from data_okD [OF assms(1)] obtain s e i t a where d: "data =
     [(''slots'', PyDict s), (''entities'', PySet e), (''intents'', PySet i),
      (''templates'', PyDict t), (''actions'', PySet a)]"
    and ok: "dict_distinct s" "py_distinct e" "py_distinct i" "dict_distinct t" "py_distinct a"
    by blast
  from d ok have "final_document order data = YMap
     [(YStr ''slots'', YMap s),
      (YStr ''entities'', YList (order e)),
      (YStr ''intents'', YList (order i)),
      (YStr ''templates'', YMap t),
      (YStr ''actions'', YList (order a))]"
    by (simp add: final_document_def dict_merge_self)
  with ok assms(2) show ?thesis by (simp add: order_distinct)
qed

lemma merge_files_append:
  "merge_files data (fs @ gs) =
     (case merge_files data fs of Inl e \<Rightarrow> Inl e | Inr d \<Rightarrow> merge_files d gs)"
  by (induction fs arbitrary: data) (auto split: sum.splits)

lemma key_norm_YStr: "key_norm z = YStr x \<longleftrightarrow> z = YStr x"
  by (cases z) auto

lemma add_all_chars:
  "\<exists>s'. add_all s (map (\<lambda>c. YStr [c]) str) = Inr s'"
  by (rule add_all_hashable) (simp add: list_all_iff)

lemma elements_chars:
  "elements (map (\<lambda>c. YStr [c]) str) = (\<lambda>c. YStr [c]) ` set str"
  by (auto simp: elements_def)

lemma elements_strings:
  assumes "elements zs = A \<union> YStr ` B"
  shows "YStr ` B \<subseteq> set zs"
proof
  fix y assume "y \<in> YStr ` B"
  then obtain x where y: "y = YStr x" and "x \<in> B" by auto
  with assms have "YStr x \<in> key_norm ` set zs" by (auto simp: elements_def)
  then obtain z where "z \<in> set zs" "key_norm z = YStr x" by auto
  with y show "y \<in> set zs" by (simp add: key_norm_YStr)
qed

lemma elements_only_strings:
  assumes "elements zs = YStr ` B"
  shows "set zs = YStr ` B"
proof
  show "YStr ` B \<subseteq> set zs" using elements_strings [of zs "{}" B] assms by simp
  show "set zs \<subseteq> YStr ` B"
  proof
    fix z assume "z \<in> set zs"
    then have "key_norm z \<in> elements zs" by (simp add: elements_def)
    with assms obtain x where "key_norm z = YStr x" "x \<in> B" by auto
    then show "z \<in> YStr ` B" by (simp add: key_norm_YStr)
  qed
qed

text \<open>The guard \<open>if yaml_data:\<close> on a false value, and the values it is false on.\<close>

lemma merge_file_falsy: "\<not> truthy w \<Longrightarrow> merge_file d (Parsed w) = Inr d"
  by (simp add: merge_file_def merge_value_def)

lemma merge_files_skip:
  "\<not> truthy w \<Longrightarrow> merge_files data (pre @ Parsed w # post) = merge_files data (pre @ post)"
  by (simp add: merge_files_append merge_file_falsy split: sum.splits)

lemma falsy_nonmapping_iff:
  "(\<not> truthy w \<and> \<not> is_mapping w) = (w \<in> {YNull, YBool False, YInt 0, YStr [], YList []})"
  by (cases w) auto

section \<open>The claims\<close>

text \<open>
  C1. Two fragments that parse to mappings with the lists \<open>xs\<close> and \<open>ys\<close> under \<open>intents\<close>:
  whenever \<open>get_domain_file\<close> returns, the \<open>intents\<close> of the written document is a list
  without repetition whose elements are those of \<open>xs\<close> and \<open>ys\<close> together, in whatever
  order the set is iterated; and it does return when both fragments are well shaped.
\<close>

theorem intents_merged_by_union:
  assumes ord: "arbitrary_order order"
    and files: "ymls @ yamls = [Parsed (YMap kvs1), Parsed (YMap kvs2)]"
    and d1: "distinct (map fst kvs1)" and d2: "distinct (map fst kvs2)"
    and i1: "(YStr ''intents'', YList xs) \<in> set kvs1"
    and i2: "(YStr ''intents'', YList ys) \<in> set kvs2"
  shows "(\<forall>p fs'. get_domain_file order filepath ymls yamls fs = (Inr p, fs') \<longrightarrow>
            (\<exists>doc zs. fs' p = Some (Yaml_Dump doc) \<and> doc_field doc ''intents'' = Some (YList zs)
               \<and> py_distinct zs \<and> elements zs = elements xs \<union> elements ys))
       \<and> (list_all well_shaped (ymls @ yamls) \<longrightarrow>
            (\<exists>fs'. get_domain_file order filepath ymls yamls fs = (Inr filepath, fs')))"
proof (intro conjI allI impI)
  fix p fs'
  assume "get_domain_file order filepath ymls yamls fs = (Inr p, fs')"
  with files obtain data where p: "p = filepath"
    and m: "merge_files initial_data [Parsed (YMap kvs1), Parsed (YMap kvs2)] = Inr data"
    and f: "fs' = fs(filepath \<mapsto> Yaml_Dump (final_document order data))"
    by (auto simp: get_domain_file_Inr)
  from i1 i2 have "kvs1 \<noteq> []" "kvs2 \<noteq> []" by auto
  from two_files [OF m this] obtain data1 where a: "merge_items initial_data kvs1 = Inr data1"
    and b: "merge_items data1 kvs2 = Inr data" by blast
  from merge_items_field [OF a d1 i1] initial_intents
  obtain c1 where u1: "container_update (PySet []) (YList xs) = Inr c1"
    and m1: "map_of data1 ''intents'' = Some c1" by auto
  from container_update_set_list [OF u1] obtain s1 where c1: "c1 = PySet s1"
    and a1: "add_all [] xs = Inr s1" by blast
  from merge_items_field [OF b d2 i2] m1 c1
  obtain c2 where u2: "container_update (PySet s1) (YList ys) = Inr c2"
    and m2: "map_of data ''intents'' = Some c2" by auto
  from container_update_set_list [OF u2] obtain s2 where c2: "c2 = PySet s2"
    and a2: "add_all s1 ys = Inr s2" by blast
  from a1 a2 have el: "elements s2 = elements xs \<union> elements ys"
    by (simp add: elements_add_all elements_Nil)
  from a1 have "py_distinct s1" by (rule add_all_distinct) (rule py_distinct_Nil)
  with a2 have di: "py_distinct s2" by (rule add_all_distinct)
  from m2 c2 have "doc_field (final_document order data) ''intents'' = Some (YList (order s2))"
    by (simp add: doc_field_final)
  with p f el di ord
  show "\<exists>doc zs. fs' p = Some (Yaml_Dump doc) \<and> doc_field doc ''intents'' = Some (YList zs)
               \<and> py_distinct zs \<and> elements zs = elements xs \<union> elements ys"
    by (simp add: order_elements order_distinct)
next
  assume "list_all well_shaped (ymls @ yamls)"
  then show "\<exists>fs'. get_domain_file order filepath ymls yamls fs = (Inr filepath, fs')"
    by (rule well_shaped_run)
qed

text \<open>The example of the specification: \<open>{intents: [a, b]}\<close> and \<open>{intents: [b, c]}\<close>.\<close>

theorem intents_merged_by_union_witness:
  "arbitrary_order rev \<and>
   (\<exists>doc zs.
      get_domain_file rev ''domain-0.yml''
        [Parsed (YMap [(YStr ''intents'', YList [YStr ''a'', YStr ''b''])]),
         Parsed (YMap [(YStr ''intents'', YList [YStr ''b'', YStr ''c''])])] [] Map.empty
        = (Inr ''domain-0.yml'', [''domain-0.yml'' \<mapsto> Yaml_Dump doc])
      \<and> doc_field doc ''intents'' = Some (YList zs) \<and> py_distinct zs
      \<and> elements zs = {YStr ''a'', YStr ''b'', YStr ''c''})"
proof -
  let ?k1 = "[(YStr ''intents'', YList [YStr ''a'', YStr ''b''])]"
  let ?k2 = "[(YStr ''intents'', YList [YStr ''b'', YStr ''c''])]"
  let ?ymls = "[Parsed (YMap ?k1), Parsed (YMap ?k2)]"
  have a: "arbitrary_order rev" by (simp add: arbitrary_order_def)
  have f: "?ymls @ [] = [Parsed (YMap ?k1), Parsed (YMap ?k2)]" by simp
  have d1: "distinct (map fst ?k1)" and d2: "distinct (map fst ?k2)" by simp_all
  have i1: "(YStr ''intents'', YList [YStr ''a'', YStr ''b'']) \<in> set ?k1"
    and i2: "(YStr ''intents'', YList [YStr ''b'', YStr ''c'']) \<in> set ?k2" by simp_all
  have r: "get_domain_file rev ''domain-0.yml'' ?ymls [] Map.empty =
     (Inr ''domain-0.yml'', [''domain-0.yml'' \<mapsto> Yaml_Dump (YMap
        [(YStr ''slots'', YMap []),
         (YStr ''entities'', YList []),
         (YStr ''intents'', YList [YStr ''c'', YStr ''b'', YStr ''a'']),
         (YStr ''templates'', YMap []),
         (YStr ''actions'', YList [])])])"
    by (simp add: get_domain_file_def merge_file_def merge_value_def merge_item_def
          initial_data_def container_update_def set_update_def set_add_def final_document_def)
  note t = intents_merged_by_union [OF a f d1 d2 i1 i2, of "''domain-0.yml''" Map.empty]
  from t [THEN conjunct1, rule_format, OF r] a r show ?thesis
    by (auto simp: elements_def)
qed

text \<open>
  C2. Two fragments, processed in this order, that parse to mappings with the mappings
  \<open>m1\<close> and \<open>m2\<close> under \<open>slots\<close> (or under \<open>templates\<close>): whenever \<open>get_domain_file\<close> returns,
  the written document holds under that key a mapping in which every name occurs once,
  and a name the second fragment defines has the second fragment's definition, whether
  or not the first defines it too. It does return when both fragments are well shaped.
\<close>

theorem mapping_entry_overwritten:
  assumes files: "ymls @ yamls = [Parsed (YMap kvs1), Parsed (YMap kvs2)]"
    and d1: "distinct (map fst kvs1)" and d2: "distinct (map fst kvs2)"
    and key: "dict_key key"
    and k1: "(YStr key, YMap m1) \<in> set kvs1"
    and k2: "(YStr key, YMap m2) \<in> set kvs2"
    and dm: "dict_distinct m2"
    and n2: "(name, def2) \<in> set m2"
  shows "(\<forall>p fs'. get_domain_file order filepath ymls yamls fs = (Inr p, fs') \<longrightarrow>
            (\<exists>doc m. fs' p = Some (Yaml_Dump doc) \<and> doc_field doc key = Some (YMap m)
               \<and> dict_distinct m \<and> dict_get m name = Some def2))
       \<and> (list_all well_shaped (ymls @ yamls) \<longrightarrow>
            (\<exists>fs'. get_domain_file order filepath ymls yamls fs = (Inr filepath, fs')))"
proof (intro conjI allI impI)
  fix p fs'
  assume "get_domain_file order filepath ymls yamls fs = (Inr p, fs')"
  with files obtain data where p: "p = filepath"
    and m: "merge_files initial_data [Parsed (YMap kvs1), Parsed (YMap kvs2)] = Inr data"
    and f: "fs' = fs(filepath \<mapsto> Yaml_Dump (final_document order data))"
    by (auto simp: get_domain_file_Inr)
  from k1 k2 have "kvs1 \<noteq> []" "kvs2 \<noteq> []" by auto
  from two_files [OF m this] obtain data1 where a: "merge_items initial_data kvs1 = Inr data1"
    and b: "merge_items data1 kvs2 = Inr data" by blast
  from merge_items_field [OF a d1 k1] initial_dict [OF key]
  obtain c1 where u1: "container_update (PyDict []) (YMap m1) = Inr c1"
    and m1: "map_of data1 key = Some c1" by auto
  from container_update_dict_map [OF u1] have c1: "c1 = PyDict (dict_merge [] m1)" .
  from merge_items_field [OF b d2 k2] m1 c1
  obtain c2 where u2: "container_update (PyDict (dict_merge [] m1)) (YMap m2) = Inr c2"
    and m2: "map_of data key = Some c2" by auto
  let ?m = "dict_merge (dict_merge [] m1) m2"
  from container_update_dict_map [OF u2] have c2: "c2 = PyDict ?m" .
  have di: "dict_distinct ?m"
    by (intro dict_merge_distinct dict_distinct_Nil)
  from dm n2 have g: "dict_get ?m name = Some def2" by (rule dict_get_merge)
  from m2 c2 di have "doc_field (final_document order data) key = Some (YMap ?m)"
    by (simp add: doc_field_final dict_merge_self)
  with p f di g
  show "\<exists>doc m. fs' p = Some (Yaml_Dump doc) \<and> doc_field doc key = Some (YMap m)
               \<and> dict_distinct m \<and> dict_get m name = Some def2"
    by simp
next
  assume "list_all well_shaped (ymls @ yamls)"
  then show "\<exists>fs'. get_domain_file order filepath ymls yamls fs = (Inr filepath, fs')"
    by (rule well_shaped_run)
qed

theorem mapping_entry_overwritten_witness:
  "dict_key ''slots'' \<and> dict_distinct [(YStr ''repo'', YStr ''text'')] \<and>
   (\<exists>doc m.
      get_domain_file id ''domain-0.yml''
        [Parsed (YMap [(YStr ''slots'', YMap [(YStr ''repo'', YStr ''bool''), (YStr ''user'', YStr ''text'')])])]
        [Parsed (YMap [(YStr ''slots'', YMap [(YStr ''repo'', YStr ''text'')])])] Map.empty
        = (Inr ''domain-0.yml'', [''domain-0.yml'' \<mapsto> Yaml_Dump doc])
      \<and> doc_field doc ''slots'' = Some (YMap m) \<and> dict_distinct m
      \<and> dict_get m (YStr ''repo'') = Some (YStr ''text''))"
proof -
  let ?m1 = "[(YStr ''repo'', YStr ''bool''), (YStr ''user'', YStr ''text'')]"
  let ?m2 = "[(YStr ''repo'', YStr ''text'')]"
  let ?k1 = "[(YStr ''slots'', YMap ?m1)]"
  let ?k2 = "[(YStr ''slots'', YMap ?m2)]"
  have f: "[Parsed (YMap ?k1)] @ [Parsed (YMap ?k2)] = [Parsed (YMap ?k1), Parsed (YMap ?k2)]"
    by simp
  have d1: "distinct (map fst ?k1)" and d2: "distinct (map fst ?k2)" by simp_all
  have key: "dict_key ''slots''" by (simp add: dict_key_def)
  have k1: "(YStr ''slots'', YMap ?m1) \<in> set ?k1" and k2: "(YStr ''slots'', YMap ?m2) \<in> set ?k2"
    by simp_all
  have dm: "dict_distinct ?m2" by (simp add: dict_distinct_def)
  have n2: "(YStr ''repo'', YStr ''text'') \<in> set ?m2" by simp
  have r: "get_domain_file id ''domain-0.yml'' [Parsed (YMap ?k1)] [Parsed (YMap ?k2)] Map.empty =
     (Inr ''domain-0.yml'', [''domain-0.yml'' \<mapsto> Yaml_Dump (YMap
        [(YStr ''slots'', YMap [(YStr ''repo'', YStr ''text''), (YStr ''user'', YStr ''text'')]),
         (YStr ''entities'', YList []),
         (YStr ''intents'', YList []),
         (YStr ''templates'', YMap []),
         (YStr ''actions'', YList [])])])"
    by (simp add: get_domain_file_def merge_file_def merge_value_def merge_item_def
          initial_data_def container_update_def dict_update_def final_document_def)
  note t = mapping_entry_overwritten [OF f d1 d2 key k1 k2 dm n2, of id "''domain-0.yml''" Map.empty]
  from t [THEN conjunct1, rule_format, OF r] key dm r show ?thesis
    by auto
qed

text \<open>
  C3. A fragment that parses to a mapping with a key outside the five recognised ones
  makes \<open>get_domain_file\<close> raise: no document is written, the temporary file stays empty.
\<close>

theorem unrecognized_key_aborts:
  assumes "Parsed (YMap kvs) \<in> set (ymls @ yamls)"
    and "k \<in> fst ` set kvs"
    and "k \<notin> domain_keys"
  shows "\<exists>e. get_domain_file order filepath ymls yamls fs = (Inl e, fs(filepath \<mapsto> Empty_File))"
proof -
  have "\<exists>e. merge_file d (Parsed (YMap kvs)) = Inl e" if "data_ok d" for d
  proof -
    from assms(2) have "kvs \<noteq> []" by auto
    with merge_items_unknown [OF assms(2,3) that] show ?thesis
      by (simp add: merge_file_def merge_value_def)
  qed
  from merge_files_abort [OF assms(1) this data_ok_initial]
  show ?thesis by (simp add: get_domain_file_Inl)
qed

theorem unrecognized_key_aborts_witness:
  "Parsed (YMap [(YStr ''intents'', YList [YStr ''greet'']), (YStr ''responses'', YMap [])])
     \<in> set ([Parsed (YMap [(YStr ''intents'', YList [YStr ''greet'']), (YStr ''responses'', YMap [])])] @ [])
   \<and> YStr ''responses'' \<in> fst ` set [(YStr ''intents'', YList [YStr ''greet'']), (YStr ''responses'', YMap [])]
   \<and> YStr ''responses'' \<notin> domain_keys
   \<and> (\<exists>e. get_domain_file id ''domain-0.yml''
         [Parsed (YMap [(YStr ''intents'', YList [YStr ''greet'']), (YStr ''responses'', YMap [])])] []
         Map.empty = (Inl e, [''domain-0.yml'' \<mapsto> Empty_File]))"
proof -
  have a: "Parsed (YMap [(YStr ''intents'', YList [YStr ''greet'']), (YStr ''responses'', YMap [])])
     \<in> set ([Parsed (YMap [(YStr ''intents'', YList [YStr ''greet'']), (YStr ''responses'', YMap [])])] @ [])"
    by simp
  have b: "YStr ''responses'' \<in> fst ` set [(YStr ''intents'', YList [YStr ''greet'']), (YStr ''responses'', YMap [])]"
    by simp
  have c: "YStr ''responses'' \<notin> domain_keys" by (simp add: domain_keys_def)
  from a b c unrecognized_key_aborts [OF a b c, of id "''domain-0.yml''" Map.empty]
  show ?thesis by blast
qed

text \<open>
  C4. With no matching file (the directory is missing, or holds no \<open>*.yml\<close> and no
  \<open>*.yaml\<close> file) \<open>get_domain_file\<close> succeeds, and the document it writes has the five keys,
  each empty.
\<close>

theorem no_fragments_empty_document:
  assumes "arbitrary_order order"
  shows "get_domain_file order filepath [] [] fs =
     (Inr filepath,
      fs(filepath \<mapsto> Yaml_Dump (YMap
        [(YStr ''slots'', YMap []),
         (YStr ''entities'', YList []),
         (YStr ''intents'', YList []),
         (YStr ''templates'', YMap []),
         (YStr ''actions'', YList [])])))"
proof -
  from assms have "order [] = []" using order_set [of order "[]"] by simp
  then show ?thesis
    by (simp add: get_domain_file_def initial_data_def final_document_def)
qed

theorem no_fragments_empty_document_witness:
  "arbitrary_order id \<and>
   get_domain_file id ''domain-0.yml'' [] [] Map.empty =
     (Inr ''domain-0.yml'',
      [''domain-0.yml'' \<mapsto> Yaml_Dump (YMap
        [(YStr ''slots'', YMap []),
         (YStr ''entities'', YList []),
         (YStr ''intents'', YList []),
         (YStr ''templates'', YMap []),
         (YStr ''actions'', YList [])])])"
proof -
  have a: "arbitrary_order id" by (simp add: arbitrary_order_def)
  from a no_fragments_empty_document [OF a, of "''domain-0.yml''" Map.empty]
  show ?thesis by simp
qed

text \<open>
  C5. Whenever \<open>get_domain_file\<close> returns, the document it wrote has exactly the five keys;
  \<open>slots\<close> and \<open>templates\<close> are mappings, and \<open>entities\<close>, \<open>intents\<close> and \<open>actions\<close> are lists
  (no set is left) in which no element occurs twice. It does return for every list of
  well-shaped fragments. (Keys among the five alone do not make it return: a value of
  the wrong shape, such as \<open>slots: null\<close>, raises.)
\<close>

theorem written_document_schema:
  assumes "arbitrary_order order"
  shows "(\<forall>p fs'. get_domain_file order filepath ymls yamls fs = (Inr p, fs') \<longrightarrow>
            p = filepath \<and>
            (\<exists>s e i t a. fs' filepath = Some (Yaml_Dump (YMap
               [(YStr ''slots'', YMap s),
                (YStr ''entities'', YList e),
                (YStr ''intents'', YList i),
                (YStr ''templates'', YMap t),
                (YStr ''actions'', YList a)]))
               \<and> dict_distinct s \<and> py_distinct e \<and> py_distinct i \<and> dict_distinct t
               \<and> py_distinct a))
       \<and> (list_all well_shaped (ymls @ yamls) \<longrightarrow>
            (\<exists>fs'. get_domain_file order filepath ymls yamls fs = (Inr filepath, fs')))"
proof (intro conjI allI impI)
  fix p fs'
  assume "get_domain_file order filepath ymls yamls fs = (Inr p, fs')"
  then obtain data where p: "p = filepath"
    and m: "merge_files initial_data (ymls @ yamls) = Inr data"
    and f: "fs' = fs(filepath \<mapsto> Yaml_Dump (final_document order data))"
    by (auto simp: get_domain_file_Inr)
  from m have "data_ok data" by (rule merge_files_ok) (rule data_ok_initial)
  from final_document_shape [OF this assms] f
  show "\<exists>s e i t a. fs' filepath = Some (Yaml_Dump (YMap
               [(YStr ''slots'', YMap s),
                (YStr ''entities'', YList e),
                (YStr ''intents'', YList i),
                (YStr ''templates'', YMap t),
                (YStr ''actions'', YList a)]))
               \<and> dict_distinct s \<and> py_distinct e \<and> py_distinct i \<and> dict_distinct t
               \<and> py_distinct a"
    by auto
  from p show "p = filepath" .
next
  assume "list_all well_shaped (ymls @ yamls)"
  then show "\<exists>fs'. get_domain_file order filepath ymls yamls fs = (Inr filepath, fs')"
    by (rule well_shaped_run)
qed

theorem written_document_schema_witness:
  "arbitrary_order rev \<and>
   list_all well_shaped
     ([Parsed (YMap [(YStr ''entities'', YList [YStr ''repo'', YStr ''repo''])])] @
      [Parsed (YMap [(YStr ''slots'', YMap [(YStr ''repo'', YMap [(YStr ''type'', YStr ''text'')])])])]) \<and>
   (\<exists>s e i t a.
      snd (get_domain_file rev ''domain-0.yml''
        [Parsed (YMap [(YStr ''entities'', YList [YStr ''repo'', YStr ''repo''])])]
        [Parsed (YMap [(YStr ''slots'', YMap [(YStr ''repo'', YMap [(YStr ''type'', YStr ''text'')])])])]
        Map.empty) ''domain-0.yml'' = Some (Yaml_Dump (YMap
               [(YStr ''slots'', YMap s),
                (YStr ''entities'', YList e),
                (YStr ''intents'', YList i),
                (YStr ''templates'', YMap t),
                (YStr ''actions'', YList a)]))
      \<and> dict_distinct s \<and> py_distinct e \<and> py_distinct i \<and> dict_distinct t \<and> py_distinct a)"
proof -
  let ?ymls = "[Parsed (YMap [(YStr ''entities'', YList [YStr ''repo'', YStr ''repo''])])]"
  let ?yamls = "[Parsed (YMap [(YStr ''slots'', YMap [(YStr ''repo'', YMap [(YStr ''type'', YStr ''text'')])])])]"
  have a: "arbitrary_order rev" by (simp add: arbitrary_order_def)
  have w: "list_all well_shaped (?ymls @ ?yamls)" by (simp add: dict_key_def set_key_def)
  note t = written_document_schema [OF a, of "''domain-0.yml''" ?ymls ?yamls Map.empty]
  from t [THEN conjunct2, rule_format, OF w]
  obtain fs' where r: "get_domain_file rev ''domain-0.yml'' ?ymls ?yamls Map.empty
      = (Inr ''domain-0.yml'', fs')" ..
  note t [THEN conjunct1, rule_format, OF r, THEN conjunct2]
  with a w r show ?thesis by simp
qed

text \<open>
  C6, as the code has it. A malformed fragment makes \<open>get_domain_file\<close> raise, no document is
  written and nothing of the other fragments is kept. The exception is the parse error
  unless a fragment in front of the first malformed one has already raised; then it is
  that fragment's exception, and the malformed file is never read.
\<close>

theorem malformed_fragment_aborts:
  assumes "Malformed \<in> set (ymls @ yamls)"
  shows "\<exists>e. get_domain_file order filepath ymls yamls fs = (Inl e, fs(filepath \<mapsto> Empty_File))
           \<and> (e = ParseError
                \<or> merge_files initial_data (takeWhile (\<lambda>f. f \<noteq> Malformed) (ymls @ yamls)) = Inl e)"
proof (cases "merge_files initial_data (takeWhile (\<lambda>f. f \<noteq> Malformed) (ymls @ yamls))")
  case (Inl e)
  with merge_files_malformed [OF assms, of initial_data] show ?thesis
    by (simp add: get_domain_file_Inl)
next
  case (Inr d)
  with merge_files_malformed [OF assms, of initial_data] show ?thesis
    by (simp add: get_domain_file_Inl)
qed

theorem malformed_fragment_aborts_witness:
  "Malformed \<in> set ([Parsed (YMap [(YStr ''intents'', YList [YStr ''greet''])])] @ [Malformed]) \<and>
   (\<exists>e. get_domain_file id ''domain-0.yml''
           [Parsed (YMap [(YStr ''intents'', YList [YStr ''greet''])])] [Malformed] Map.empty
         = (Inl e, [''domain-0.yml'' \<mapsto> Empty_File])
       \<and> (e = ParseError
            \<or> merge_files initial_data (takeWhile (\<lambda>f. f \<noteq> Malformed)
                 ([Parsed (YMap [(YStr ''intents'', YList [YStr ''greet''])])] @ [Malformed])) = Inl e))"
proof -
  have a: "Malformed \<in> set ([Parsed (YMap [(YStr ''intents'', YList [YStr ''greet''])])] @ [Malformed])"
    by simp
  from a malformed_fragment_aborts [OF a, of id "''domain-0.yml''" Map.empty]
  show ?thesis by (rule conjI)
qed

text \<open>
  The claim as the specification words it fails: with a fragment holding an unknown key
  in front of the malformed one, the call raises \<open>KeyError\<close>, not a parse error.
\<close>

theorem malformed_fragment_counterexample:
  "Malformed \<in> set [Parsed (YMap [(YStr ''responses'', YMap [])]), Malformed] \<and>
   fst (get_domain_file id ''domain-0.yml''
          [Parsed (YMap [(YStr ''responses'', YMap [])]), Malformed] [] Map.empty) = Inl KeyError \<and>
   fst (get_domain_file id ''domain-0.yml''
          [Parsed (YMap [(YStr ''responses'', YMap [])]), Malformed] [] Map.empty) \<noteq> Inl ParseError"
  by (simp add: get_domain_file_def merge_file_def merge_value_def merge_item_def initial_data_def)

text \<open>
  C8, as the code has it. A fragment that parses to a value that is true in Python's
  sense (a non-empty list or string, a non-zero number, \<open>true\<close>) and is not a mapping makes
  \<open>get_domain_file\<close> raise; no document is written. A fragment that parses to a value that
  is false in Python's sense is skipped: the call does what it does without that file.
  The non-mapping values that are false are exactly \<open>None\<close> (an empty file), \<open>false\<close>, \<open>0\<close>, the
  empty string and the empty list.
\<close>

theorem nonmapping_fragment_raises_or_skipped:
  "(Parsed v \<in> set (ymls @ yamls) \<and> truthy v \<and> \<not> is_mapping v \<longrightarrow>
      (\<exists>e. get_domain_file order filepath ymls yamls fs = (Inl e, fs(filepath \<mapsto> Empty_File))))
   \<and> (\<not> truthy w \<and> ymls @ yamls = pre @ Parsed w # post \<and> ymls' @ yamls' = pre @ post \<longrightarrow>
      get_domain_file order filepath ymls yamls fs = get_domain_file order filepath ymls' yamls' fs)
   \<and> ((\<not> truthy u \<and> \<not> is_mapping u) = (u \<in> {YNull, YBool False, YInt 0, YStr [], YList []}))"
proof (intro conjI impI)
  assume h: "Parsed v \<in> set (ymls @ yamls) \<and> truthy v \<and> \<not> is_mapping v"
  then have "merge_file d (Parsed v) = Inl AttributeError" for d
    by (cases v) (simp_all add: merge_file_def merge_value_def)
  then have "\<exists>e. merge_file d (Parsed v) = Inl e" if "data_ok d" for d by simp
  from merge_files_abort [OF h [THEN conjunct1] this data_ok_initial]
  show "\<exists>e. get_domain_file order filepath ymls yamls fs = (Inl e, fs(filepath \<mapsto> Empty_File))"
    by (simp add: get_domain_file_Inl)
next
  assume h: "\<not> truthy w \<and> ymls @ yamls = pre @ Parsed w # post \<and> ymls' @ yamls' = pre @ post"
  then have "merge_files initial_data (ymls @ yamls) = merge_files initial_data (ymls' @ yamls')"
    by (simp add: merge_files_skip)
  then show "get_domain_file order filepath ymls yamls fs
      = get_domain_file order filepath ymls' yamls' fs"
    by (simp add: get_domain_file_def)
next
  show "(\<not> truthy u \<and> \<not> is_mapping u) = (u \<in> {YNull, YBool False, YInt 0, YStr [], YList []})"
    by (rule falsy_nonmapping_iff)
qed

theorem nonmapping_fragment_raises_or_skipped_witness:
  "(Parsed (YList [YStr ''greet'']) \<in> set ([Parsed (YStr []), Parsed (YList [YStr ''greet''])] @ [])
      \<and> truthy (YList [YStr ''greet'']) \<and> \<not> is_mapping (YList [YStr ''greet'']))
   \<and> (\<exists>e. get_domain_file id ''domain-0.yml''
          [Parsed (YStr []), Parsed (YList [YStr ''greet''])] [] Map.empty
          = (Inl e, [''domain-0.yml'' \<mapsto> Empty_File]))
   \<and> (\<not> truthy (YStr [])
      \<and> [Parsed (YStr []), Parsed (YList [YStr ''greet''])] @ []
           = [] @ Parsed (YStr []) # [Parsed (YList [YStr ''greet''])]
      \<and> [Parsed (YList [YStr ''greet''])] @ [] = [] @ [Parsed (YList [YStr ''greet''])])
   \<and> get_domain_file id ''domain-0.yml''
          [Parsed (YStr []), Parsed (YList [YStr ''greet''])] [] Map.empty
        = get_domain_file id ''domain-0.yml'' [Parsed (YList [YStr ''greet''])] [] Map.empty
   \<and> (\<not> truthy (YList []) \<and> \<not> is_mapping (YList []))"
proof -
  let ?v = "YList [YStr ''greet'']"
  let ?ymls = "[Parsed (YStr []), Parsed ?v]"
  note t = nonmapping_fragment_raises_or_skipped
    [of ?v ?ymls "[]" id "''domain-0.yml''" Map.empty "YStr []" "[]" "[Parsed ?v]" "[Parsed ?v]" "[]"
        "YList []"]
  have a: "Parsed ?v \<in> set (?ymls @ []) \<and> truthy ?v \<and> \<not> is_mapping ?v" by simp
  have b: "\<not> truthy (YStr []) \<and> ?ymls @ [] = [] @ Parsed (YStr []) # [Parsed ?v]
      \<and> [Parsed ?v] @ [] = [] @ [Parsed ?v]" by simp
  have c: "YList [] \<in> {YNull, YBool False, YInt 0, YStr [], YList []}" by simp
  from t [THEN conjunct1, rule_format, OF a]
    t [THEN conjunct2, THEN conjunct1, rule_format, OF b]
    t [THEN conjunct2, THEN conjunct2, THEN iffD2, OF c] a b
  show ?thesis by (elim conjE, intro conjI) assumption+
qed

text \<open>
  The claim as worded fails for the non-mapping values that are false in Python's sense:
  a file holding the bare scalar \<open>0\<close> (or \<open>false\<close>) is skipped by \<open>if yaml_data:\<close> and the call
  succeeds, writing the empty document.
\<close>

theorem nonmapping_fragment_counterexample:
  "\<not> is_mapping (YInt 0) \<and>
   get_domain_file id ''domain-0.yml'' [Parsed (YInt 0)] [] Map.empty =
     (Inr ''domain-0.yml'',
      [''domain-0.yml'' \<mapsto> Yaml_Dump (YMap
        [(YStr ''slots'', YMap []),
         (YStr ''entities'', YList []),
         (YStr ''intents'', YList []),
         (YStr ''templates'', YMap []),
         (YStr ''actions'', YList [])])]) \<and>
   fst (get_domain_file id ''domain-0.yml'' [Parsed (YBool False)] [] Map.empty) = Inr ''domain-0.yml''"
  by (simp add: get_domain_file_def merge_file_def merge_value_def initial_data_def
        final_document_def)

text \<open>
  C9. A fragment that maps \<open>entities\<close>, \<open>intents\<close> or \<open>actions\<close> to a string instead of a list is
  not rejected: after any well-shaped fragments, \<open>get_domain_file\<close> returns, and every
  character of the string is an element, as a one-character string, of the list written
  under that key; when the fragment is the only one, the list holds exactly the
  characters of the string, each once.
\<close>

theorem string_adds_its_characters:
  assumes ord: "arbitrary_order order"
    and key: "set_key key"
    and pre: "list_all well_shaped pre"
    and files: "ymls @ yamls = pre @ [Parsed (YMap [(YStr key, YStr str)])]"
  shows "\<exists>doc zs. get_domain_file order filepath ymls yamls fs
             = (Inr filepath, fs(filepath \<mapsto> Yaml_Dump doc))
           \<and> doc_field doc key = Some (YList zs)
           \<and> py_distinct zs
           \<and> (\<lambda>c. YStr [c]) ` set str \<subseteq> set zs
           \<and> (pre = [] \<longrightarrow> set zs = (\<lambda>c. YStr [c]) ` set str)"
proof -
  let ?chars = "map (\<lambda>c. YStr [c]) str"
  from merge_files_well_shaped [OF data_ok_initial pre]
  obtain data1 where m1: "merge_files initial_data pre = Inr data1" ..
  then have ok1: "data_ok data1" by (rule merge_files_ok) (rule data_ok_initial)
  from data_ok_set [OF ok1 key] obtain s1 where g1: "map_of data1 key = Some (PySet s1)" ..
  from g1 have "(key, PySet s1) \<in> set data1" by (rule map_of_SomeD)
  with ok1 have "container_ok (snd (key, PySet s1))"
    unfolding data_ok_def list_all_iff by blast
  then have di1: "py_distinct s1" by simp
  from add_all_chars obtain s2 where a2: "add_all s1 ?chars = Inr s2" ..
  let ?data2 = "AList.update key (PySet s2) data1"
  from g1 a2 have it: "merge_item data1 (YStr key, YStr str) = Inr ?data2"
    by (simp add: merge_item_set set_update_def)
  from m1 it files have m2: "merge_files initial_data (ymls @ yamls) = Inr ?data2"
    by (simp add: merge_files_append merge_file_def merge_value_def)
  have g2: "map_of ?data2 key = Some (PySet s2)" by (simp add: update_conv')
  from a2 di1 have di2: "py_distinct s2" by (rule add_all_distinct)
  from a2 have el: "elements s2 = elements s1 \<union> YStr ` ((\<lambda>c. [c]) ` set str)"
    by (simp add: elements_add_all elements_chars image_image)
  then have sub: "YStr ` ((\<lambda>c. [c]) ` set str) \<subseteq> set s2" by (rule elements_strings)
  have only: "set s2 = YStr ` ((\<lambda>c. [c]) ` set str)" if "pre = []"
  proof -
    from that m1 have "data1 = initial_data" by simp
    with g1 initial_set [OF key] have "s1 = []" by simp
    with el have "elements s2 = YStr ` ((\<lambda>c. [c]) ` set str)" by (simp add: elements_Nil)
    then show ?thesis by (rule elements_only_strings)
  qed
  let ?doc = "final_document order ?data2"
  from m2 have "get_domain_file order filepath ymls yamls fs
      = (Inr filepath, fs(filepath \<mapsto> Yaml_Dump ?doc))"
    by (simp add: get_domain_file_Inr)
  moreover from g2 have "doc_field ?doc key = Some (YList (order s2))"
    by (simp add: doc_field_final)
  moreover from di2 ord have "py_distinct (order s2)" by (simp add: order_distinct)
  moreover from sub ord have "(\<lambda>c. YStr [c]) ` set str \<subseteq> set (order s2)"
    by (simp add: order_set image_image)
  moreover from only ord have "pre = [] \<longrightarrow> set (order s2) = (\<lambda>c. YStr [c]) ` set str"
    by (simp add: order_set image_image)
  ultimately show ?thesis by blast
qed

theorem string_adds_its_characters_witness:
  "arbitrary_order id \<and> set_key ''intents'' \<and> list_all well_shaped [] \<and>
   (\<exists>doc zs. get_domain_file id ''domain-0.yml''
        [Parsed (YMap [(YStr ''intents'', YStr ''greet'')])] [] Map.empty
             = (Inr ''domain-0.yml'', [''domain-0.yml'' \<mapsto> Yaml_Dump doc])
           \<and> doc_field doc ''intents'' = Some (YList zs)
           \<and> py_distinct zs
           \<and> set zs = {YStr ''g'', YStr ''r'', YStr ''e'', YStr ''t''})"
proof -
  have a: "arbitrary_order id" by (simp add: arbitrary_order_def)
  have k: "set_key ''intents''" by (simp add: set_key_def)
  have p: "list_all well_shaped []" by simp
  have f: "[Parsed (YMap [(YStr ''intents'', YStr ''greet'')])] @ []
      = [] @ [Parsed (YMap [(YStr ''intents'', YStr ''greet'')])]" by simp
  from string_adds_its_characters [OF a k p f, of "''domain-0.yml''" Map.empty]
  obtain doc zs where "get_domain_file id ''domain-0.yml''
        [Parsed (YMap [(YStr ''intents'', YStr ''greet'')])] [] Map.empty
             = (Inr ''domain-0.yml'', [''domain-0.yml'' \<mapsto> Yaml_Dump doc])"
    "doc_field doc ''intents'' = Some (YList zs)" "py_distinct zs"
    "set zs = (\<lambda>c. YStr [c]) ` set ''greet''"
    by auto
  moreover have "(\<lambda>c. YStr [c]) ` set ''greet'' = {YStr ''g'', YStr ''r'', YStr ''e'', YStr ''t''}"
    by auto
  ultimately show ?thesis using a k p by auto
qed

text \<open>
  C10. The temporary file is created and truncated before the first fragment is looked
  at, so whatever makes the merge fail, and at whichever fragment, the call leaves the
  file system with an empty file at the temporary path and is otherwise unchanged.
\<close>

theorem failure_leaves_empty_file:
  assumes "get_domain_file order filepath ymls yamls fs = (Inl e, fs')"
  shows "fs' = fs(filepath \<mapsto> Empty_File) \<and> fs' filepath = Some Empty_File"
  using assms by (simp add: get_domain_file_Inl)

theorem failure_leaves_empty_file_witness:
  "get_domain_file id ''domain-0.yml'' [Malformed] [] Map.empty =
     (Inl ParseError, [''domain-0.yml'' \<mapsto> Empty_File]) \<and>
   [''domain-0.yml'' \<mapsto> Empty_File] ''domain-0.yml'' = Some Empty_File"
proof -
  have r: "get_domain_file id ''domain-0.yml'' [Malformed] [] Map.empty =
     (Inl ParseError, [''domain-0.yml'' \<mapsto> Empty_File])"
    by (simp add: get_domain_file_def merge_file_def)
  from r failure_leaves_empty_file [OF r] show ?thesis by simp
qed

end
